theory Spec2Isabelle
  imports Main "HOL-Library.Word"
begin

section \<open>GameShelf front end: session, search and collection logic of App.js\<close>

text \<open>
  The development embeds the stateful logic of \<^verbatim>\<open>src/frontend/src/App.js\<close>: the
  \<^verbatim>\<open>AuthProvider\<close> (lines 12-127), \<^verbatim>\<open>GameSearch\<close> (391-427),
  \<^verbatim>\<open>GameDetailsModal.handleAddToCollection\<close> (496-519), \<^verbatim>\<open>Collection\<close>
  (701-740) and the callbacks that \<^verbatim>\<open>App\<close> wires into them (920-930).

  React state is a record per component, updated by explicit state passing. What the
  code does to the browser (the \<^verbatim>\<open>localStorage\<close> slot, the default
  \<^verbatim>\<open>Authorization\<close> header of axios, requests sent, console and alert output,
  timers) is a record of its own, \<open>browser\<close>. The answer of the server to a request
  is an argument of the function that awaits it: \<open>Inl\<close> a rejected promise,
  \<open>Inr\<close> the \<^verbatim>\<open>response.data\<close> of a resolved one.
\<close>

subsection \<open>Strings\<close>

text \<open>
  A JavaScript string is a sequence of UTF-16 code units; \<^verbatim>\<open>.length\<close> counts them.
\<close>

type_synonym jschar = "16 word"
type_synonym jsstring = "jschar list"

definition js :: "string \<Rightarrow> jsstring" where
  "js s = map (\<lambda>c. of_nat (of_char c)) s"

text \<open>Truthiness of a value that is a string or \<^verbatim>\<open>null\<close>: only a non-empty string is truthy.\<close>

fun truthy :: "jsstring option \<Rightarrow> bool" where
  "truthy None = False"
| "truthy (Some s) = (s \<noteq> [])"

text \<open>
  \<^verbatim>\<open>encodeURIComponent\<close> throws a \<^verbatim>\<open>URIError\<close> exactly on a string with a lone
  surrogate: a high surrogate (D800-DBFF) not followed by a low one (DC00-DFFF), or a low
  surrogate not preceded by a high one. \<open>well_formed_utf16\<close> holds of the strings it
  encodes.
\<close>

definition high_surrogate :: "jschar \<Rightarrow> bool" where
  "high_surrogate c = (0xD800 \<le> c \<and> c \<le> 0xDBFF)"

definition low_surrogate :: "jschar \<Rightarrow> bool" where
  "low_surrogate c = (0xDC00 \<le> c \<and> c \<le> 0xDFFF)"

fun well_formed_utf16 :: "jsstring \<Rightarrow> bool" where
  "well_formed_utf16 [] = True"
| "well_formed_utf16 [c] = (\<not> high_surrogate c \<and> \<not> low_surrogate c)"
| "well_formed_utf16 (c # d # ds) =
     (if high_surrogate c then low_surrogate d \<and> well_formed_utf16 ds
      else \<not> low_surrogate c \<and> well_formed_utf16 (d # ds))"

subsection \<open>Data\<close>

record profile =
  username :: jsstring
  email :: jsstring
  collection_count :: nat
  wishlist_count :: nat

record catalog_entry =
  bgg_id :: nat
  name :: jsstring
  year_published :: "nat option"

record collection_item =
  item_id :: nat
  game :: catalog_entry
  user_notes :: jsstring
  custom_tags :: "jsstring list"
  is_wishlist :: bool
  date_added :: nat

text \<open>
  What a \<^verbatim>\<open>catch\<close> block receives. A rejected axios promise: no response at all, or a
  response with a status outside 2xx and possibly a \<^verbatim>\<open>data.detail\<close> text. Or the
  \<^verbatim>\<open>URIError\<close> that \<^verbatim>\<open>encodeURIComponent\<close> throws; it has no \<^verbatim>\<open>response\<close>.
\<close>

datatype http_error = NetworkError | HttpStatus nat "jsstring option" | URIError

datatype request =
    PostLogin jsstring jsstring
  | GetProfile
  | GetSearch jsstring
  | GetCollection bool
  | PostCollection nat jsstring "jsstring list" bool
  | DeleteCollection nat

subsection \<open>The browser\<close>

record browser =
  localStorage_token :: "jsstring option"
  authorization :: "jsstring option"
  requests :: "request list"
  console :: "(string \<times> http_error) list"
  alerts :: "string list"
  now :: nat
  next_timer :: nat
  timers :: "(nat \<times> nat \<times> jsstring) list"

text \<open>
  \<open>timers\<close> holds the pending timeouts as (id, due time in ms, captured value): the only
  callback ever scheduled is \<^verbatim>\<open>() => searchGames(value)\<close>. Timer ids are positive.
\<close>

definition fresh_browser :: browser where
  "fresh_browser = \<lparr>localStorage_token = None, authorization = None, requests = [],
     console = [], alerts = [], now = 0, next_timer = 1, timers = []\<rparr>"

definition send :: "request \<Rightarrow> browser \<Rightarrow> browser" where
  "send r b = b\<lparr>requests := requests b @ [r]\<rparr>"

definition console_error :: "string \<Rightarrow> http_error \<Rightarrow> browser \<Rightarrow> browser" where
  "console_error msg e b = b\<lparr>console := console b @ [(msg, e)]\<rparr>"

definition alert :: "string \<Rightarrow> browser \<Rightarrow> browser" where
  "alert msg b = b\<lparr>alerts := alerts b @ [msg]\<rparr>"

definition setTimeout :: "jsstring \<Rightarrow> nat \<Rightarrow> browser \<Rightarrow> nat \<times> browser" where
  "setTimeout v delay b =
     (next_timer b,
      b\<lparr>next_timer := Suc (next_timer b),
        timers := timers b @ [(next_timer b, now b + delay, v)]\<rparr>)"

definition clearTimeout :: "nat \<Rightarrow> browser \<Rightarrow> browser" where
  "clearTimeout i b = b\<lparr>timers := filter (\<lambda>t. fst t \<noteq> i) (timers b)\<rparr>"

subsection \<open>GameSearch\<close>

record search_state =
  query :: jsstring
  searchResults :: "catalog_entry list"
  searching :: bool
  searchTimeout :: "nat option"

text \<open>\<open>searching\<close> is the component's \<^verbatim>\<open>loading\<close> flag.\<close>

definition search_init :: search_state where
  "search_init = \<lparr>query = [], searchResults = [], searching = False, searchTimeout = None\<rparr>"

text \<open>
  \<^verbatim>\<open>searchGames\<close> (lines 397-413) runs in two parts. \<open>searchGames_call\<close> is the part up
  to the \<^verbatim>\<open>await\<close>: the length guard, \<^verbatim>\<open>setLoading(true)\<close> and, inside the
  \<^verbatim>\<open>try\<close>, the URL with \<^verbatim>\<open>encodeURIComponent(searchQuery)\<close> and the request. When
  the encoding throws, no request is made and the \<^verbatim>\<open>catch\<close> and \<^verbatim>\<open>finally\<close> blocks
  run at once. \<open>searchGames_settle\<close> is the rest, run when the answer arrives. A request
  is recorded with the text it asks for.
\<close>

definition searchGames_call :: "jsstring \<Rightarrow> browser \<times> search_state \<Rightarrow> browser \<times> search_state" where
  "searchGames_call searchQuery st =
     (case st of (b, s) \<Rightarrow>
        if length searchQuery < 2 then (b, s\<lparr>searchResults := []\<rparr>)
        else if well_formed_utf16 searchQuery then
          (send (GetSearch searchQuery) b, s\<lparr>searching := True\<rparr>)
        else
          (console_error ''Search error:'' URIError b,
           s\<lparr>searchResults := [], searching := False\<rparr>))"

definition searchGames_settle ::
  "http_error + catalog_entry list \<Rightarrow> browser \<times> search_state \<Rightarrow> browser \<times> search_state" where
  "searchGames_settle answer st =
     (case st of (b, s) \<Rightarrow>
        (case answer of
           Inr data \<Rightarrow> (b, s\<lparr>searchResults := data, searching := False\<rparr>)
         | Inl e \<Rightarrow> (console_error ''Search error:'' e b,
                      s\<lparr>searchResults := [], searching := False\<rparr>)))"

text \<open>The requests that a call of \<^verbatim>\<open>searchGames\<close> with the text \<open>v\<close> sends: one or none.\<close>

definition search_requests :: "jsstring \<Rightarrow> request list" where
  "search_requests v = (if 2 \<le> length v \<and> well_formed_utf16 v then [GetSearch v] else [])"

text \<open>
  Several searches can be in flight at once. A run of the mounted component is a list of
  events: \<open>Invoke q\<close> calls \<^verbatim>\<open>searchGames(q)\<close>, \<open>Arrive k\<close> delivers the answer to
  the \<open>k\<close>-th request that the component sent in this run (counted from 0), which the
  server computes from that request's query text. An answer arrives only for a request
  that was sent and is still unanswered; any other \<open>Arrive\<close> is not a run (\<open>None\<close>).
  Beside the browser and the component's state, the state of a run holds the requests
  the component sent in the run (what a call added to the browser's list) and the
  indices of those answered so far. Requests of other components in the browser's list
  play no part.
\<close>

datatype search_event = Invoke jsstring | Arrive nat

type_synonym search_world = "browser \<times> search_state \<times> request list \<times> nat list"

type_synonym catalog = "jsstring \<Rightarrow> http_error + catalog_entry list"

fun search_step :: "catalog \<Rightarrow> search_event \<Rightarrow> search_world \<Rightarrow> search_world option" where
  "search_step cat (Invoke q) (b, s, sent, answered) =
     (case searchGames_call q (b, s) of
        (b', s') \<Rightarrow> Some (b', s', sent @ drop (length (requests b)) (requests b'), answered))"
| "search_step cat (Arrive k) (b, s, sent, answered) =
     (if k < length sent \<and> k \<notin> set answered then
        (case sent ! k of
           GetSearch q \<Rightarrow>
             (case searchGames_settle (cat q) (b, s) of
                (b', s') \<Rightarrow> Some (b', s', sent, k # answered))
         | _ \<Rightarrow> None)
      else None)"

fun search_run :: "catalog \<Rightarrow> search_event list \<Rightarrow> search_world \<Rightarrow> search_world option" where
  "search_run cat [] w = Some w"
| "search_run cat (e # es) w =
     (case search_step cat e w of None \<Rightarrow> None | Some w' \<Rightarrow> search_run cat es w')"

text \<open>Every request the component sent has been answered.\<close>

fun all_resolved :: "search_world \<Rightarrow> bool" where
  "all_resolved (b, s, sent, answered) = list_all (\<lambda>k. k \<in> set answered) [0..<length sent]"

text \<open>The result set that an answer puts on display.\<close>

fun result_set :: "http_error + catalog_entry list \<Rightarrow> catalog_entry list" where
  "result_set (Inr data) = data"
| "result_set (Inl e) = []"

text \<open>What the last event of a run leaves on display, given the requests sent in the run.\<close>

fun left_by :: "catalog \<Rightarrow> request list \<Rightarrow> search_event \<Rightarrow> catalog_entry list" where
  "left_by cat rs (Invoke q) = []"
| "left_by cat rs (Arrive k) =
     (case rs ! k of GetSearch q \<Rightarrow> result_set (cat q) | _ \<Rightarrow> [])"

definition visible :: "search_world option \<Rightarrow> catalog_entry list option" where
  "visible w = map_option (\<lambda>(b, s, sent, answered). searchResults s) w"

definition sent_queries :: "search_world option \<Rightarrow> request list option" where
  "sent_queries w = map_option (\<lambda>(b, s, sent, answered). sent) w"

definition settled :: "search_world option \<Rightarrow> bool" where
  "settled w = (case w of None \<Rightarrow> False | Some w' \<Rightarrow> all_resolved w')"

text \<open>
  \<^verbatim>\<open>handleInputChange\<close> (lines 415-427). The guard \<^verbatim>\<open>if (searchTimeout)\<close> is the
  truthiness of a timer id or \<^verbatim>\<open>null\<close>.
\<close>

definition handleInputChange :: "jsstring \<Rightarrow> browser \<times> search_state \<Rightarrow> browser \<times> search_state" where
  "handleInputChange v st =
     (case st of (b, s) \<Rightarrow>
        let s1 = s\<lparr>query := v\<rparr>;
            b1 = (case searchTimeout s of
                    None \<Rightarrow> b
                  | Some i \<Rightarrow> if i \<noteq> 0 then clearTimeout i b else b)
        in case setTimeout v 300 b1 of
             (timeout, b2) \<Rightarrow> (b2, s1\<lparr>searchTimeout := Some timeout\<rparr>))"

text \<open>
  \<^verbatim>\<open>App\<close> renders \<^verbatim>\<open>GameSearch\<close> only while the search tab is active (line 1072).
  Leaving the tab unmounts the component and coming back mounts a new one with the
  initial state. The component has no effect with a cleanup, so a timeout it had pending
  stays pending in the browser.
\<close>

definition remount :: "browser \<times> search_state \<Rightarrow> browser \<times> search_state" where
  "remount st = (case st of (b, s) \<Rightarrow> (b, search_init))"

text \<open>
  A timeout fires: its callback calls \<^verbatim>\<open>searchGames\<close> with the text it captured. The
  mounted component has at most its latest timeout pending, the one whose id it
  remembers in \<^verbatim>\<open>searchTimeout\<close>; the call of that callback is \<open>searchGames_call\<close>. A
  pending timeout with another id was scheduled by an earlier mount: its callback does to
  the browser what \<^verbatim>\<open>searchGames\<close> does (the request, the console), and its state
  setters belong to the unmounted component, so the mounted one keeps its state.
\<close>

definition fire :: "nat \<times> nat \<times> jsstring \<Rightarrow> browser \<times> search_state \<Rightarrow> browser \<times> search_state" where
  "fire x st =
     (case st of (b, s) \<Rightarrow>
        if searchTimeout s = Some (fst x) then searchGames_call (snd (snd x)) (b, s)
        else (fst (searchGames_call (snd (snd x)) (b, s)), s))"

text \<open>
  \<open>elapse d\<close> lets \<open>d\<close> milliseconds pass with no input: the timeouts that fall due in
  that time leave the pending list and fire, earliest first. A callback neither sets nor
  clears a timer.
\<close>

definition elapse :: "nat \<Rightarrow> browser \<times> search_state \<Rightarrow> browser \<times> search_state" where
  "elapse d st =
     (case st of (b, s) \<Rightarrow>
        let t = now b + d;
            due = filter (\<lambda>x. fst (snd x) \<le> t) (timers b);
            b' = b\<lparr>now := t, timers := filter (\<lambda>x. \<not> fst (snd x) \<le> t) (timers b)\<rparr>
        in fold fire (sort_key (\<lambda>x. fst (snd x)) due) (b', s))"

text \<open>
  Typing: each keystroke comes with the time that passed since the event before it and
  the text of the input field after it.
\<close>

fun type_keys :: "(nat \<times> jsstring) list \<Rightarrow> browser \<times> search_state \<Rightarrow> browser \<times> search_state" where
  "type_keys [] st = st"
| "type_keys ((gap, v) # ks) st = type_keys ks (handleInputChange v (elapse gap st))"

text \<open>The requests sent by a list of timeouts that fire one after the other.\<close>

definition fired_requests :: "(nat \<times> nat \<times> jsstring) list \<Rightarrow> request list" where
  "fired_requests ts = concat (map (\<lambda>x. search_requests (snd (snd x))) ts)"

text \<open>
  The state right after a keystroke that left the text \<open>v\<close>, in a burst that began at
  time \<open>t0\<close> with the timeouts \<open>old\<close> of earlier mounts pending and the requests \<open>r\<close>
  sent: the timeout the component remembers is pending last, due 300 ms from now and
  carrying \<open>v\<close>, its id is newer than every id in \<open>old\<close>; before it are pending those
  of \<open>old\<close> not yet due, and those that were due have sent their requests.
\<close>

definition armed ::
  "(nat \<times> nat \<times> jsstring) list \<Rightarrow> nat \<Rightarrow> jsstring \<Rightarrow> request list \<Rightarrow> browser \<times> search_state \<Rightarrow> bool" where
  "armed old t0 v r st =
     (case st of (b, s) \<Rightarrow>
        (case searchTimeout s of
           None \<Rightarrow> False
         | Some i \<Rightarrow>
             0 < i \<and> list_all (\<lambda>x. fst x < i) old \<and> i < next_timer b \<and> t0 \<le> now b
             \<and> timers b = filter (\<lambda>x. \<not> fst (snd x) \<le> now b) old @ [(i, now b + 300, v)]
             \<and> requests b = r @ fired_requests (filter (\<lambda>x. fst (snd x) \<le> now b) old)))"

text \<open>A two-entry catalog for concrete runs.\<close>

definition cat_lady :: catalog_entry where
  "cat_lady = \<lparr>bgg_id = 228504, name = js ''Cat Lady'', year_published = Some 2017\<rparr>"

definition catan :: catalog_entry where
  "catan = \<lparr>bgg_id = 13, name = js ''Catan'', year_published = Some 1995\<rparr>"

definition demo_catalog :: catalog where
  "demo_catalog q =
     (if q = js ''catan'' then Inr [catan]
      else if q = js ''cat'' then Inr [cat_lady, catan]
      else Inr [])"

subsection \<open>AuthProvider\<close>

record auth_state =
  user :: "profile option"
  token :: "jsstring option"
  loading :: bool

definition auth_init :: auth_state where
  "auth_init = \<lparr>user = None, token = None, loading = True\<rparr>"

definition bearer :: "jsstring \<Rightarrow> jsstring" where
  "bearer t = js ''Bearer '' @ t"

text \<open>
  \<^verbatim>\<open>initializeAuth\<close> (lines 19-41). \<open>answer\<close> is the outcome of the profile request, used
  only when the stored token is truthy and the request is made.
\<close>

definition initializeAuth ::
  "http_error + profile \<Rightarrow> browser \<times> auth_state \<Rightarrow> browser \<times> auth_state" where
  "initializeAuth answer st =
     (case st of (b, a) \<Rightarrow>
        (case localStorage_token b of
           None \<Rightarrow> (b, a\<lparr>loading := False\<rparr>)
         | Some storedToken \<Rightarrow>
             if storedToken = [] then (b, a\<lparr>loading := False\<rparr>)
             else
               let b1 = send GetProfile (b\<lparr>authorization := Some (bearer storedToken)\<rparr>);
                   a1 = a\<lparr>token := Some storedToken\<rparr>
               in (case answer of
                     Inr data \<Rightarrow> (b1, a1\<lparr>user := Some data, loading := False\<rparr>)
                   | Inl e \<Rightarrow>
                       ((console_error ''Token validation failed:'' e b1)
                          \<lparr>localStorage_token := None, authorization := None\<rparr>,
                        a1\<lparr>token := None, user := None, loading := False\<rparr>))))"

text \<open>
  The value \<^verbatim>\<open>login\<close> returns: \<^verbatim>\<open>{ success: true }\<close> or
  \<^verbatim>\<open>{ success: false, error: ... }\<close>, the text being
  \<^verbatim>\<open>error.response?.data?.detail || 'Login failed. ...'\<close>.
\<close>

datatype login_result = Success | Failure jsstring

fun error_detail :: "http_error \<Rightarrow> jsstring option" where
  "error_detail NetworkError = None"
| "error_detail (HttpStatus code detail) = detail"
| "error_detail URIError = None"

definition or_default :: "jsstring option \<Rightarrow> string \<Rightarrow> jsstring" where
  "or_default d dflt = (case d of None \<Rightarrow> js dflt | Some t \<Rightarrow> if t = [] then js dflt else t)"

definition login_failure :: "http_error \<Rightarrow> login_result" where
  "login_failure e =
     Failure (or_default (error_detail e) ''Login failed. Please check your credentials.'')"

text \<open>
  \<^verbatim>\<open>login\<close> (lines 46-68). One \<^verbatim>\<open>try\<close> block holds the token exchange, the three
  writes of the token and the profile request; the \<^verbatim>\<open>catch\<close> only logs and returns.
\<close>

definition login ::
  "jsstring \<Rightarrow> jsstring \<Rightarrow> http_error + jsstring \<Rightarrow> http_error + profile
   \<Rightarrow> browser \<times> auth_state \<Rightarrow> login_result \<times> browser \<times> auth_state" where
  "login uname password tokenAnswer profileAnswer st =
     (case st of (b, a) \<Rightarrow>
        let b0 = send (PostLogin uname password) b in
        (case tokenAnswer of
           Inl e \<Rightarrow> (login_failure e, console_error ''Login error:'' e b0, a)
         | Inr access_token \<Rightarrow>
             let b1 = send GetProfile
                        (b0\<lparr>localStorage_token := Some access_token,
                            authorization := Some (bearer access_token)\<rparr>);
                 a1 = a\<lparr>token := Some access_token\<rparr>
             in (case profileAnswer of
                   Inl e \<Rightarrow> (login_failure e, console_error ''Login error:'' e b1, a1)
                 | Inr data \<Rightarrow> (Success, b1, a1\<lparr>user := Some data\<rparr>))))"

text \<open>\<^verbatim>\<open>logout\<close> (lines 94-99).\<close>

definition logout :: "browser \<times> auth_state \<Rightarrow> browser \<times> auth_state" where
  "logout st =
     (case st of (b, a) \<Rightarrow>
        (b\<lparr>localStorage_token := None, authorization := None\<rparr>,
         a\<lparr>token := None, user := None\<rparr>))"

text \<open>\<^verbatim>\<open>refreshProfile\<close> (lines 101-112).\<close>

definition refreshProfile ::
  "http_error + profile \<Rightarrow> browser \<times> auth_state \<Rightarrow> browser \<times> auth_state" where
  "refreshProfile answer st =
     (case st of (b, a) \<Rightarrow>
        if truthy (token a) then
          let b1 = send GetProfile b in
          (case answer of
             Inr data \<Rightarrow> (b1, a\<lparr>user := Some data\<rparr>)
           | Inl e \<Rightarrow> logout (console_error ''Failed to refresh profile:'' e b1, a))
        else (b, a))"

text \<open>
  A reload of the page: the script starts again, so the axios defaults, the React state
  and the timers are new, while \<^verbatim>\<open>localStorage\<close> keeps its content. The lists of
  requests and of console and alert output are kept as a history.
\<close>

definition reload :: "browser \<times> auth_state \<Rightarrow> browser \<times> auth_state" where
  "reload st = (case st of (b, a) \<Rightarrow> (b\<lparr>authorization := None, timers := []\<rparr>, auth_init))"

text \<open>
  The session status as \<^verbatim>\<open>App\<close> reads it: the spinner while \<^verbatim>\<open>loading\<close> (line 947),
  then the user menu or the sign-in buttons by \<^verbatim>\<open>user\<close> (line 1002).
\<close>

datatype session_status = Initializing | Anonymous | Authenticated

definition status :: "auth_state \<Rightarrow> session_status" where
  "status a = (if loading a then Initializing
               else if user a = None then Anonymous else Authenticated)"

subsection \<open>Collection\<close>

record collection_state =
  collection :: "collection_item list"
  fetching :: bool

text \<open>\<open>fetching\<close> is the component's \<^verbatim>\<open>loading\<close> flag; both start as the source has them.\<close>

definition collection_init :: collection_state where
  "collection_init = \<lparr>collection = [], fetching = True\<rparr>"

text \<open>\<^verbatim>\<open>fetchCollection\<close> (lines 716-726).\<close>

definition fetchCollection ::
  "bool \<Rightarrow> http_error + collection_item list \<Rightarrow> browser \<times> collection_state
   \<Rightarrow> browser \<times> collection_state" where
  "fetchCollection isWishlist answer st =
     (case st of (b, c) \<Rightarrow>
        let b1 = send (GetCollection isWishlist) b in
        (case answer of
           Inr data \<Rightarrow> (b1, c\<lparr>collection := data, fetching := False\<rparr>)
         | Inl e \<Rightarrow> (console_error ''Error fetching collection:'' e b1, c\<lparr>fetching := False\<rparr>)))"

text \<open>
  The effect of lines 708-714, run when the component mounts and when \<^verbatim>\<open>isWishlist\<close> or
  \<^verbatim>\<open>user\<close> changes: this is the list operation.
\<close>

definition Collection_effect ::
  "bool \<Rightarrow> profile option \<Rightarrow> http_error + collection_item list
   \<Rightarrow> browser \<times> collection_state \<Rightarrow> browser \<times> collection_state" where
  "Collection_effect isWishlist usr answer st =
     (case st of (b, c) \<Rightarrow>
        if usr \<noteq> None then fetchCollection isWishlist answer (b, c)
        else (b, c\<lparr>fetching := False\<rparr>))"

text \<open>
  What the component renders (lines 738-910). \<open>arrange\<close> stands for the filter and sort
  of lines 753-769 with the component's filter text and sort key.
\<close>

datatype collection_view =
  LoginPrompt | Spinner | EmptyShelf | Grid "collection_item list"

definition Collection_render ::
  "(collection_item list \<Rightarrow> collection_item list) \<Rightarrow> profile option \<Rightarrow> collection_state
   \<Rightarrow> collection_view" where
  "Collection_render arrange usr c =
     (if usr = None then LoginPrompt
      else if fetching c then Spinner
      else if collection c = [] then EmptyShelf
      else Grid (arrange (collection c)))"

fun shown_items :: "collection_view \<Rightarrow> collection_item list" where
  "shown_items (Grid items) = items"
| "shown_items v = []"

subsection \<open>App: the callbacks handed to the components\<close>

record app_state =
  selectedGame :: "catalog_entry option"
  activeTab :: string

text \<open>
  \<^verbatim>\<open>fetchCounts\<close> (lines 920-922) is an async function whose body is a comment: it
  changes nothing. \<^verbatim>\<open>App.handleAddToCollection\<close> (lines 928-930) calls it, and
  \<^verbatim>\<open>Collection\<close> receives it as \<^verbatim>\<open>onRefresh\<close> (lines 1107, 1117).
\<close>

definition fetchCounts :: "browser \<times> auth_state \<times> app_state \<Rightarrow> browser \<times> auth_state \<times> app_state" where
  "fetchCounts st = st"

definition App_handleAddToCollection ::
  "browser \<times> auth_state \<times> app_state \<Rightarrow> browser \<times> auth_state \<times> app_state" where
  "App_handleAddToCollection st = fetchCounts st"

text \<open>The modal's \<^verbatim>\<open>onClose\<close> (line 1134): \<^verbatim>\<open>() => setSelectedGame(null)\<close>.\<close>

definition App_onClose ::
  "browser \<times> auth_state \<times> app_state \<Rightarrow> browser \<times> auth_state \<times> app_state" where
  "App_onClose st = (case st of (b, a, p) \<Rightarrow> (b, a, p\<lparr>selectedGame := None\<rparr>))"

text \<open>
  \<^verbatim>\<open>removeFromCollection\<close> (lines 728-736), with \<^verbatim>\<open>onRefresh\<close> a parameter as in the
  source. \<^verbatim>\<open>fetchCollection()\<close> sends its request before \<^verbatim>\<open>onRefresh()\<close> runs.
\<close>

definition removeFromCollection ::
  "(browser \<times> 'w \<Rightarrow> browser \<times> 'w) \<Rightarrow> bool \<Rightarrow> nat \<Rightarrow> http_error + unit
   \<Rightarrow> http_error + collection_item list
   \<Rightarrow> browser \<times> collection_state \<times> 'w \<Rightarrow> browser \<times> collection_state \<times> 'w" where
  "removeFromCollection onRefresh isWishlist collectionId deleteAnswer listAnswer st =
     (case st of (b, c, w) \<Rightarrow>
        let b1 = send (DeleteCollection collectionId) b in
        (case deleteAnswer of
           Inl e \<Rightarrow> (console_error ''Error removing from collection:'' e b1, c, w)
         | Inr u \<Rightarrow>
             (case fetchCollection isWishlist listAnswer (b1, c) of
                (b2, c2) \<Rightarrow> (case onRefresh (b2, w) of (b3, w3) \<Rightarrow> (b3, c2, w3)))))"

subsection \<open>GameDetailsModal: adding a game\<close>

text \<open>
  \<^verbatim>\<open>String.prototype.split\<close> with a one-unit separator, \<^verbatim>\<open>String.prototype.trim\<close>
  and the white space of ECMAScript (WhiteSpace and LineTerminator), all in the Basic
  Multilingual Plane.
\<close>

definition comma :: jschar where
  "comma = 0x2C"

fun js_split :: "'a \<Rightarrow> 'a list \<Rightarrow> 'a list list" where
  "js_split sep [] = [[]]"
| "js_split sep (c # cs) =
     (if c = sep then [] # js_split sep cs
      else (case js_split sep cs of
              [] \<Rightarrow> [[c]]
            | seg # segs \<Rightarrow> (c # seg) # segs))"

definition is_whitespace :: "jschar \<Rightarrow> bool" where
  "is_whitespace c =
     (c = 0x09 \<or> c = 0x0A \<or> c = 0x0B \<or> c = 0x0C \<or> c = 0x0D \<or> c = 0x20 \<or> c = 0xA0
      \<or> c = 0x1680 \<or> (0x2000 \<le> c \<and> c \<le> 0x200A) \<or> c = 0x2028 \<or> c = 0x2029
      \<or> c = 0x202F \<or> c = 0x205F \<or> c = 0x3000 \<or> c = 0xFEFF)"

definition trim :: "jsstring \<Rightarrow> jsstring" where
  "trim s = rev (dropWhile is_whitespace (rev (dropWhile is_whitespace s)))"

text \<open>Joining segments with a separator, the inverse of splitting.\<close>

fun join :: "'a \<Rightarrow> 'a list list \<Rightarrow> 'a list" where
  "join sep [] = []"
| "join sep [seg] = seg"
| "join sep (seg # segs) = seg @ sep # join sep segs"

record modal_state =
  userNotes :: jsstring
  customTags :: jsstring
  isWishlist :: bool
  adding :: bool

text \<open>
  \<^verbatim>\<open>GameDetailsModal.handleAddToCollection\<close> (lines 496-519) runs in two parts, as
  \<^verbatim>\<open>searchGames\<close> does. \<open>handleAddToCollection_call\<close> is the part up to the
  \<^verbatim>\<open>await\<close>: the sign-in guard, \<^verbatim>\<open>setAdding(true)\<close>, the tags and the request; its
  first result tells whether a request was sent. \<open>handleAddToCollection_settle\<close> is the
  rest, run when the answer arrives. \<open>usr\<close> is \<^verbatim>\<open>user\<close> from the auth context, \<open>gm\<close>
  the \<^verbatim>\<open>game\<close> prop, \<^verbatim>\<open>onAddToCollection\<close> and \<^verbatim>\<open>onClose\<close> are props too.
\<close>

definition handleAddToCollection_call ::
  "profile option \<Rightarrow> catalog_entry \<Rightarrow> browser \<times> modal_state \<Rightarrow> bool \<times> browser \<times> modal_state" where
  "handleAddToCollection_call usr gm st =
     (case st of (b, m) \<Rightarrow>
        if usr = None then
          (False, alert ''Please sign in to add games to your collection.'' b, m)
        else
          let tags = filter (\<lambda>tag. tag \<noteq> []) (map trim (js_split comma (customTags m)))
          in (True,
              send (PostCollection (bgg_id gm) (userNotes m) tags (isWishlist m)) b,
              m\<lparr>adding := True\<rparr>))"

definition handleAddToCollection_settle ::
  "(browser \<times> 'w \<Rightarrow> browser \<times> 'w) \<Rightarrow> (browser \<times> 'w \<Rightarrow> browser \<times> 'w)
   \<Rightarrow> http_error + unit \<Rightarrow> browser \<times> modal_state \<times> 'w \<Rightarrow> browser \<times> modal_state \<times> 'w" where
  "handleAddToCollection_settle onAddToCollection onClose answer st =
     (case st of (b, m, w) \<Rightarrow>
        (case answer of
           Inr u \<Rightarrow>
             (case onClose (onAddToCollection (b, w)) of
                (b2, w2) \<Rightarrow> (b2, m\<lparr>adding := False\<rparr>, w2))
         | Inl e \<Rightarrow>
             (alert ''This game is already in your collection!''
                (console_error ''Error adding to collection:'' e b),
              m\<lparr>adding := False\<rparr>, w)))"

definition handleAddToCollection ::
  "(browser \<times> 'w \<Rightarrow> browser \<times> 'w) \<Rightarrow> (browser \<times> 'w \<Rightarrow> browser \<times> 'w)
   \<Rightarrow> profile option \<Rightarrow> catalog_entry \<Rightarrow> http_error + unit
   \<Rightarrow> browser \<times> modal_state \<times> 'w \<Rightarrow> browser \<times> modal_state \<times> 'w" where
  "handleAddToCollection onAddToCollection onClose usr gm answer st =
     (case st of (b, m, w) \<Rightarrow>
        (case handleAddToCollection_call usr gm (b, m) of
           (pending, b1, m1) \<Rightarrow>
             if pending then handleAddToCollection_settle onAddToCollection onClose answer (b1, m1, w)
             else (b1, m1, w)))"

text \<open>
  The same function in the earlier revision of the file (\<^verbatim>\<open>src/unnamed/part_001\<close>, lines
  144-162): there is no auth context and no sign-in guard; the rest, alert text included,
  is the same.
\<close>

definition handleAddToCollection_call_part_001 ::
  "catalog_entry \<Rightarrow> browser \<times> modal_state \<Rightarrow> browser \<times> modal_state" where
  "handleAddToCollection_call_part_001 gm st =
     (case st of (b, m) \<Rightarrow>
        let tags = filter (\<lambda>tag. tag \<noteq> []) (map trim (js_split comma (customTags m)))
        in (send (PostCollection (bgg_id gm) (userNotes m) tags (isWishlist m)) b,
            m\<lparr>adding := True\<rparr>))"

definition handleAddToCollection_part_001 ::
  "(browser \<times> 'w \<Rightarrow> browser \<times> 'w) \<Rightarrow> (browser \<times> 'w \<Rightarrow> browser \<times> 'w)
   \<Rightarrow> catalog_entry \<Rightarrow> http_error + unit
   \<Rightarrow> browser \<times> modal_state \<times> 'w \<Rightarrow> browser \<times> modal_state \<times> 'w" where
  "handleAddToCollection_part_001 onAddToCollection onClose gm answer st =
     (case st of (b, m, w) \<Rightarrow>
        (case handleAddToCollection_call_part_001 gm (b, m) of
           (b1, m1) \<Rightarrow> handleAddToCollection_settle onAddToCollection onClose answer (b1, m1, w)))"

text \<open>
  What the caller of \<^verbatim>\<open>handleAddToCollection\<close> and the user can tell after it has
  run: the alerts shown, the requests sent, the modal's state and the state that the
  callbacks act on. The promise it returns resolves to \<^verbatim>\<open>undefined\<close> in every case, and
  the console is left out: it is the one place where the error object is written.
\<close>

definition caller_view ::
  "browser \<times> modal_state \<times> 'w \<Rightarrow> string list \<times> request list \<times> modal_state \<times> 'w" where
  "caller_view st = (case st of (b, m, w) \<Rightarrow> (alerts b, requests b, m, w))"

subsection \<open>Concrete values\<close>

definition alice :: profile where
  "alice = \<lparr>username = js ''alice'', email = js ''alice@example.org'',
     collection_count = 1, wishlist_count = 0\<rparr>"

definition catan_item :: collection_item where
  "catan_item = \<lparr>item_id = 7, game = catan, user_notes = js ''family night'',
     custom_tags = [js ''classic''], is_wishlist = False, date_added = 1700000000\<rparr>"

text \<open>A browser and a session in which alice is signed in with the token "tok".\<close>

definition alice_browser :: browser where
  "alice_browser = fresh_browser\<lparr>localStorage_token := Some (js ''tok''),
     authorization := Some (bearer (js ''tok''))\<rparr>"

definition alice_session :: auth_state where
  "alice_session = \<lparr>user = Some alice, token = Some (js ''tok''), loading = False\<rparr>"

text \<open>The modal's form, empty and with a tags text, and the page behind the modal.\<close>

definition empty_form :: modal_state where
  "empty_form = \<lparr>userNotes = [], customTags = [], isWishlist = False, adding = False\<rparr>"

definition tagged_form :: modal_state where
  "tagged_form = \<lparr>userNotes = js ''fun'', customTags = js '' strategy, co-op ,, '',
     isWishlist = False, adding = False\<rparr>"

definition search_page :: app_state where
  "search_page = \<lparr>selectedGame = Some catan, activeTab = ''search''\<rparr>"

definition collection_page :: app_state where
  "collection_page = \<lparr>selectedGame = None, activeTab = ''collection''\<rparr>"

subsection \<open>Properties of searchGames\<close>

text \<open>
  C2. A query of fewer than two code units clears the result set and sends nothing: the
  list of requests, and everything else in the browser, is as before.
\<close>

theorem searchGames_short_query:
  assumes "length q < 2"
  shows "searchResults (snd (searchGames_call q (b, s))) = []
       \<and> fst (searchGames_call q (b, s)) = b
       \<and> requests (fst (searchGames_call q (b, s))) = requests b"
  using assms by (simp add: searchGames_call_def)

theorem searchGames_short_query_witness:
  "length (js ''c'') < 2
   \<and> searchResults (snd (searchGames_call (js ''c'')
        (fresh_browser, search_init\<lparr>searchResults := [\<lparr>bgg_id = 13, name = js ''Catan'', year_published = Some 1995\<rparr>]\<rparr>))) = []
   \<and> requests (fst (searchGames_call (js ''c'')
        (fresh_browser, search_init\<lparr>searchResults := [\<lparr>bgg_id = 13, name = js ''Catan'', year_published = Some 1995\<rparr>]\<rparr>))) = []"
proof -
  have h: "length (js ''c'') < 2" by (simp add: js_def)
  show ?thesis
    using h searchGames_short_query [OF h, of fresh_browser]
    by (simp add: fresh_browser_def)
qed

subsection \<open>Searches in flight\<close>

lemma call_requests:
  "requests (fst (searchGames_call q (b, s))) = requests b @ search_requests q"
  by (simp add: searchGames_call_def search_requests_def send_def console_error_def)

lemma call_silent_clears:
  "search_requests q = [] \<Longrightarrow> searchResults (snd (searchGames_call q (b, s))) = []"
  by (auto simp: searchGames_call_def search_requests_def split: if_splits)

lemma search_requests_cases:
  "search_requests q = [] \<or> search_requests q = [GetSearch q]"
  by (simp add: search_requests_def)

lemma settle_results:
  "searchGames_settle r (b, s) = (b', s') \<Longrightarrow> searchResults s' = result_set r"
  by (auto simp: searchGames_settle_def split: sum.splits)

lemma step_Invoke:
  "search_step cat (Invoke q) (b, s, sent, a) =
     Some (fst (searchGames_call q (b, s)), snd (searchGames_call q (b, s)),
           sent @ search_requests q, a)"
proof -
  obtain b' s' where c: "searchGames_call q (b, s) = (b', s')"
    by (cases "searchGames_call q (b, s)")
  then have "requests b' = requests b @ search_requests q"
    using call_requests[of q b s] by simp
  with c show ?thesis by simp
qed

text \<open>Only requests that were sent are ever marked as answered.\<close>

lemma step_answered_sent:
  assumes "search_step cat e (b0, s0, sent0, a0) = Some (b, s, sent, a)"
    and "\<forall>k\<in>set a0. k < length sent0"
  shows "\<forall>k\<in>set a. k < length sent"
proof (cases e)
  case (Invoke q)
  with assms show ?thesis
    unfolding Invoke step_Invoke by fastforce
next
  case (Arrive k)
  with assms show ?thesis
    by (fastforce split: prod.splits if_splits request.splits)
qed

lemma run_answered_sent:
  "search_run cat evs w0 = Some w \<Longrightarrow> \<forall>k\<in>set (snd (snd (snd w0))). k < length (fst (snd (snd w0)))
   \<Longrightarrow> \<forall>k\<in>set (snd (snd (snd w))). k < length (fst (snd (snd w)))"
proof (induction evs arbitrary: w0)
  case Nil
  then show ?case by simp
next
  case (Cons e es)
  from Cons.prems(1) obtain w1 where s: "search_step cat e w0 = Some w1"
    and r: "search_run cat es w1 = Some w"
    by (auto split: option.splits)
  obtain b0 s0 sent0 a0 where w0: "w0 = (b0, s0, sent0, a0)" by (cases w0)
  obtain b1 s1 sent1 a1 where w1: "w1 = (b1, s1, sent1, a1)" by (cases w1)
  have "\<forall>k\<in>set a1. k < length sent1"
    using step_answered_sent[of cat e b0 s0 sent0 a0 b1 s1 sent1 a1] s Cons.prems(2) w0 w1 by simp
  then show ?case using Cons.IH[OF r] w1 by simp
qed

lemma run_snoc:
  "search_run cat (es @ [e]) w0 =
     (case search_run cat es w0 of None \<Rightarrow> None | Some w \<Rightarrow> search_step cat e w)"
  by (induction es arbitrary: w0) (auto split: option.splits)

text \<open>
  C1 (as the code has it). \<^verbatim>\<open>searchGames\<close> numbers no request and drops no answer:
  each answer that arrives is put on display. So, for a run of the mounted component
  that starts with none of its requests in flight, from any browser and component state,
  and at whose end every request it sent has been answered, the result set on display is
  the one left by the last event of the run: the answer that arrived last (its data, or
  nothing if it was a failure), or nothing if the run ended with a search that sent no
  request (a text shorter than two units, or one that \<^verbatim>\<open>encodeURIComponent\<close> rejects).
  It is the answer to the last query sent when that answer is the last event of the run.
\<close>

theorem search_shows_last_settled:
  assumes run: "search_run cat evs (b0, s0, [], []) = Some (b, s, sent, a)"
    and ne: "evs \<noteq> []"
    and res: "all_resolved (b, s, sent, a)"
  shows "searchResults s = left_by cat sent (last evs)
       \<and> (\<forall>q. last evs = Arrive (length sent - 1) \<and> last sent = GetSearch q
              \<longrightarrow> searchResults s = result_set (cat q))"
proof -
  obtain es e where evs: "evs = es @ [e]"
    using ne by (cases evs rule: rev_cases) auto
  obtain b1 s1 sent1 a1 where mid: "search_run cat es (b0, s0, [], []) = Some (b1, s1, sent1, a1)"
    and stp: "search_step cat e (b1, s1, sent1, a1) = Some (b, s, sent, a)"
    using run unfolding evs run_snoc by (auto split: option.splits)
  have inv: "\<forall>k\<in>set a1. k < length sent1"
    using run_answered_sent[OF mid] by simp
  have main: "searchResults s = left_by cat sent (last evs)"
  proof (cases e)
    case (Invoke q)
    from stp have st: "s = snd (searchGames_call q (b1, s1))" "sent = sent1 @ search_requests q"
      "a = a1"
      unfolding Invoke step_Invoke by auto
    show ?thesis
    proof (cases "search_requests q = []")
      case True
      with st Invoke evs show ?thesis
        by (simp add: call_silent_clears)
    next
      case False
      then have sq: "sent = sent1 @ [GetSearch q]"
        using st search_requests_cases[of q] by auto
      from res have "\<forall>k<length sent. k \<in> set a"
        by (simp add: list_all_iff)
      then have "length sent1 \<in> set a1"
        unfolding sq st(3) by simp
      with inv show ?thesis by auto
    qed
  next
    case (Arrive k)
    with stp obtain q where k: "k < length sent1"
      and rq: "sent1 ! k = GetSearch q"
      and st: "searchGames_settle (cat q) (b1, s1) = (b, s)" and se: "sent = sent1"
      by (auto split: if_splits request.splits prod.splits)
    from st have "searchResults s = result_set (cat q)"
      by (auto dest: settle_results)
    with rq se Arrive evs show ?thesis by simp
  qed
  have "searchResults s = result_set (cat q)"
    if l: "last evs = Arrive (length sent - 1)" and q: "last sent = GetSearch q" for q
  proof -
    from l evs stp have "length sent - 1 < length sent1" "sent = sent1"
      by (auto split: if_splits request.splits prod.splits)
    then have "sent \<noteq> []" by auto
    then have "sent ! (length sent - 1) = GetSearch q"
      using q by (simp add: last_conv_nth)
    with main l show ?thesis by simp
  qed
  with main show ?thesis by blast
qed

theorem search_shows_last_settled_witness:
  "search_run demo_catalog [Invoke (js ''cat''), Invoke (js ''catan''), Arrive 0, Arrive 1]
       (fresh_browser\<lparr>requests := [GetProfile]\<rparr>, search_init, [], [])
     = Some (fresh_browser\<lparr>requests := [GetProfile, GetSearch (js ''cat''), GetSearch (js ''catan'')]\<rparr>,
             search_init\<lparr>searchResults := [catan]\<rparr>,
             [GetSearch (js ''cat''), GetSearch (js ''catan'')], [1, 0])
   \<and> [Invoke (js ''cat''), Invoke (js ''catan''), Arrive 0, Arrive 1] \<noteq> []
   \<and> all_resolved (fresh_browser\<lparr>requests := [GetProfile, GetSearch (js ''cat''), GetSearch (js ''catan'')]\<rparr>,
             search_init\<lparr>searchResults := [catan]\<rparr>,
             [GetSearch (js ''cat''), GetSearch (js ''catan'')], [1, 0])
   \<and> searchResults (search_init\<lparr>searchResults := [catan]\<rparr>)
       = result_set (demo_catalog (js ''catan''))"
proof -
  have run: "search_run demo_catalog [Invoke (js ''cat''), Invoke (js ''catan''), Arrive 0, Arrive 1]
       (fresh_browser\<lparr>requests := [GetProfile]\<rparr>, search_init, [], [])
     = Some (fresh_browser\<lparr>requests := [GetProfile, GetSearch (js ''cat''), GetSearch (js ''catan'')]\<rparr>,
             search_init\<lparr>searchResults := [catan]\<rparr>,
             [GetSearch (js ''cat''), GetSearch (js ''catan'')], [1, 0])"
    by (simp add: demo_catalog_def js_def fresh_browser_def search_init_def
        searchGames_call_def searchGames_settle_def send_def high_surrogate_def low_surrogate_def)
  have ne: "[Invoke (js ''cat''), Invoke (js ''catan''), Arrive 0, Arrive 1] \<noteq> []"
    by simp
  have res: "all_resolved (fresh_browser\<lparr>requests := [GetProfile, GetSearch (js ''cat''), GetSearch (js ''catan'')]\<rparr>,
             search_init\<lparr>searchResults := [catan]\<rparr>,
             [GetSearch (js ''cat''), GetSearch (js ''catan'')], [1, 0])"
    by simp
  show ?thesis
    using run ne res search_shows_last_settled [OF run ne res]
    by (simp add: fresh_browser_def)
qed

text \<open>
  C1 (as stated) fails: "cat" is sent, then "catan"; the answer to "catan" arrives first
  and the answer to "cat" second. Every request is answered, the last query sent is
  "catan", and the display holds the answer to "cat".
\<close>

theorem stale_response_overwrites:
  "settled (search_run demo_catalog
        [Invoke (js ''cat''), Invoke (js ''catan''), Arrive 1, Arrive 0]
        (fresh_browser, search_init, [], []))
   \<and> sent_queries (search_run demo_catalog
        [Invoke (js ''cat''), Invoke (js ''catan''), Arrive 1, Arrive 0]
        (fresh_browser, search_init, [], []))
       = Some [GetSearch (js ''cat''), GetSearch (js ''catan'')]
   \<and> visible (search_run demo_catalog
        [Invoke (js ''cat''), Invoke (js ''catan''), Arrive 1, Arrive 0]
        (fresh_browser, search_init, [], []))
       = Some (result_set (demo_catalog (js ''cat'')))
   \<and> visible (search_run demo_catalog
        [Invoke (js ''cat''), Invoke (js ''catan''), Arrive 1, Arrive 0]
        (fresh_browser, search_init, [], []))
       \<noteq> Some (result_set (demo_catalog (js ''catan'')))"
  by (simp add: settled_def sent_queries_def visible_def demo_catalog_def js_def
      fresh_browser_def search_init_def searchGames_call_def searchGames_settle_def send_def
      cat_lady_def catan_def high_surrogate_def low_surrogate_def)

text \<open>
  A search for a text with a lone surrogate after an answered search: nothing is sent,
  the error is logged and the display is cleared.
\<close>

lemma unencodable_search_clears_display:
  "search_run demo_catalog [Invoke (js ''cat''), Arrive 0, Invoke [0xD83C, 0x61]]
       (fresh_browser, search_init, [], [])
     = Some (fresh_browser\<lparr>requests := [GetSearch (js ''cat'')],
                console := [(''Search error:'', URIError)]\<rparr>,
             search_init, [GetSearch (js ''cat'')], [0])"
  by (simp add: demo_catalog_def js_def fresh_browser_def search_init_def
      searchGames_call_def searchGames_settle_def send_def console_error_def
      high_surrogate_def low_surrogate_def)

subsection \<open>Debounce\<close>

lemma call_keeps:
  "timers (fst (searchGames_call q (b, s))) = timers b"
  "now (fst (searchGames_call q (b, s))) = now b"
  "next_timer (fst (searchGames_call q (b, s))) = next_timer b"
  "searchTimeout (snd (searchGames_call q (b, s))) = searchTimeout s"
  by (simp_all add: searchGames_call_def send_def console_error_def)

lemma fire_keeps:
  "timers (fst (fire x (b, s))) = timers b"
  "now (fst (fire x (b, s))) = now b"
  "next_timer (fst (fire x (b, s))) = next_timer b"
  "searchTimeout (snd (fire x (b, s))) = searchTimeout s"
  "requests (fst (fire x (b, s))) = requests b @ search_requests (snd (snd x))"
  by (simp_all add: fire_def call_keeps call_requests)

lemma fire_other:
  "searchTimeout s \<noteq> Some (fst x) \<Longrightarrow> snd (fire x (b, s)) = s"
  by (simp add: fire_def)

lemma fire_own:
  "searchTimeout s = Some (fst x) \<Longrightarrow> fire x (b, s) = searchGames_call (snd (snd x)) (b, s)"
  by (simp add: fire_def)

lemma fold_fire_keeps:
  "timers (fst (fold fire L (b, s))) = timers b
   \<and> now (fst (fold fire L (b, s))) = now b
   \<and> next_timer (fst (fold fire L (b, s))) = next_timer b
   \<and> searchTimeout (snd (fold fire L (b, s))) = searchTimeout s
   \<and> requests (fst (fold fire L (b, s))) = requests b @ fired_requests L"
proof (induction L arbitrary: b s)
  case Nil
  then show ?case by (simp add: fired_requests_def)
next
  case (Cons x L)
  obtain b' s' where f: "fire x (b, s) = (b', s')" by (cases "fire x (b, s)")
  from fire_keeps[of x b s] f have k: "timers b' = timers b" "now b' = now b"
    "next_timer b' = next_timer b" "searchTimeout s' = searchTimeout s"
    "requests b' = requests b @ search_requests (snd (snd x))"
    by simp_all
  show ?case using Cons.IH[of b' s'] f k by (simp add: fired_requests_def)
qed

lemma fold_fire_others:
  "\<forall>x\<in>set L. searchTimeout s \<noteq> Some (fst x) \<Longrightarrow> snd (fold fire L (b, s)) = s"
proof (induction L arbitrary: b)
  case Nil
  then show ?case by simp
next
  case (Cons x L)
  obtain b' s' where f: "fire x (b, s) = (b', s')" by (cases "fire x (b, s)")
  with fire_other[of s x b] Cons.prems have "s' = s" by simp
  with Cons f show ?case by simp
qed

lemma fired_requests_append: "fired_requests (A @ B) = fired_requests A @ fired_requests B"
  by (simp add: fired_requests_def)

lemma elapse_keeps:
  "timers (fst (elapse d (b, s))) = filter (\<lambda>x. \<not> fst (snd x) \<le> now b + d) (timers b)"
  "now (fst (elapse d (b, s))) = now b + d"
  "next_timer (fst (elapse d (b, s))) = next_timer b"
  "searchTimeout (snd (elapse d (b, s))) = searchTimeout s"
  by (simp_all add: elapse_def Let_def fold_fire_keeps)

lemma elapse_requests_sorted:
  assumes "sorted (map (\<lambda>x. fst (snd x)) (timers b))"
  shows "requests (fst (elapse d (b, s)))
           = requests b @ fired_requests (filter (\<lambda>x. fst (snd x) \<le> now b + d) (timers b))"
proof -
  have "sorted (map (\<lambda>x. fst (snd x)) (filter (\<lambda>x. fst (snd x) \<le> now b + d) (timers b)))"
    using assms by (rule sorted_filter)
  then have "sort_key (\<lambda>x. fst (snd x)) (filter (\<lambda>x. fst (snd x) \<le> now b + d) (timers b))
      = filter (\<lambda>x. fst (snd x) \<le> now b + d) (timers b)"
    by (rule sort_key_id_if_sorted)
  then show ?thesis by (simp add: elapse_def Let_def fold_fire_keeps)
qed

lemma elapse_others:
  assumes "\<forall>x\<in>set (timers b). fst (snd x) \<le> now b + d \<longrightarrow> searchTimeout s \<noteq> Some (fst x)"
  shows "snd (elapse d (b, s)) = s"
  using assms by (simp add: elapse_def Let_def fold_fire_others)

lemma filter_due_split:
  assumes "sorted (map (\<lambda>x. fst (snd x)) T)" "t1 \<le> (t2::nat)"
  shows "filter (\<lambda>x. fst (snd x) \<le> t1) T
           @ filter (\<lambda>x. \<not> fst (snd x) \<le> t1 \<and> fst (snd x) \<le> t2) T
         = filter (\<lambda>x. fst (snd x) \<le> t2) T"
  using assms
proof (induction T)
  case Nil
  then show ?case by simp
next
  case (Cons x T)
  show ?case
  proof (cases "fst (snd x) \<le> t1")
    case True
    with Cons show ?thesis by simp
  next
    case False
    with Cons.prems have "\<forall>y\<in>set T. \<not> fst (snd y) \<le> t1" by auto
    then have "filter (\<lambda>x. fst (snd x) \<le> t1) T = []" by (simp add: filter_empty_conv)
    with Cons False show ?thesis by simp
  qed
qed

text \<open>
  A keystroke removes from the pending timeouts exactly the one whose id the component
  remembers, and appends a new one due in 300 ms with the text typed.
\<close>

lemma handleInputChange_effect:
  "timers (fst (handleInputChange v (b, s)))
     = filter (\<lambda>x. \<not> (searchTimeout s = Some (fst x) \<and> fst x \<noteq> 0)) (timers b)
       @ [(next_timer b, now b + 300, v)]"
  "searchTimeout (snd (handleInputChange v (b, s))) = Some (next_timer b)"
  "next_timer (fst (handleInputChange v (b, s))) = Suc (next_timer b)"
  "now (fst (handleInputChange v (b, s))) = now b"
  "requests (fst (handleInputChange v (b, s))) = requests b"
proof -
  show "timers (fst (handleInputChange v (b, s)))
     = filter (\<lambda>x. \<not> (searchTimeout s = Some (fst x) \<and> fst x \<noteq> 0)) (timers b)
       @ [(next_timer b, now b + 300, v)]"
  proof (cases "searchTimeout s")
    case None
    then show ?thesis by (simp add: handleInputChange_def setTimeout_def)
  next
    case (Some i)
    have "filter (\<lambda>x. fst x \<noteq> i) (timers b)
        = filter (\<lambda>x. \<not> (i = fst x \<and> fst x \<noteq> 0)) (timers b)" if "i \<noteq> 0"
      using that by (intro filter_cong) auto
    moreover have "filter (\<lambda>x. \<not> (0 = fst x \<and> fst x \<noteq> 0)) (timers b) = timers b"
      by (rule filter_True) auto
    ultimately show ?thesis using Some
      by (cases "i = 0") (simp_all add: handleInputChange_def setTimeout_def clearTimeout_def)
  qed
qed (simp_all add: handleInputChange_def setTimeout_def clearTimeout_def split: option.splits)

lemma armedI:
  assumes "searchTimeout s = Some i" "0 < i" "\<forall>x\<in>set old. fst x < i" "i < next_timer b"
    "t0 \<le> now b"
    "timers b = filter (\<lambda>x. \<not> fst (snd x) \<le> now b) old @ [(i, now b + 300, v)]"
    "requests b = r @ fired_requests (filter (\<lambda>x. fst (snd x) \<le> now b) old)"
  shows "armed old t0 v r (b, s)"
  using assms by (simp add: armed_def list_all_iff)

lemma armedE:
  assumes "armed old t0 v r (b, s)"
  obtains i where "searchTimeout s = Some i" "0 < i" "\<forall>x\<in>set old. fst x < i"
    "i < next_timer b" "t0 \<le> now b"
    "timers b = filter (\<lambda>x. \<not> fst (snd x) \<le> now b) old @ [(i, now b + 300, v)]"
    "requests b = r @ fired_requests (filter (\<lambda>x. fst (snd x) \<le> now b) old)"
  using assms by (auto simp: armed_def list_all_iff split: option.splits)

lemma first_key_arms:
  assumes fresh: "0 < next_timer b" "\<forall>x\<in>set (timers b). fst x < next_timer b"
    and others: "\<forall>x\<in>set (timers b). searchTimeout s \<noteq> Some (fst x)"
    and srt: "sorted (map (\<lambda>x. fst (snd x)) (timers b))"
  shows "armed (timers b) (now b) v (requests b) (handleInputChange v (elapse g (b, s)))"
proof -
  obtain b1 s1 where e: "elapse g (b, s) = (b1, s1)" by (cases "elapse g (b, s)")
  have s1: "s1 = s" using elapse_others[of b g s] others e by simp
  have b1: "timers b1 = filter (\<lambda>x. \<not> fst (snd x) \<le> now b + g) (timers b)"
    "now b1 = now b + g" "next_timer b1 = next_timer b"
    "requests b1 = requests b @ fired_requests (filter (\<lambda>x. fst (snd x) \<le> now b + g) (timers b))"
    using elapse_keeps[of g b s] elapse_requests_sorted[OF srt, of g s] e by simp_all
  obtain b2 s2 where h: "handleInputChange v (b1, s) = (b2, s2)"
    by (cases "handleInputChange v (b1, s)")
  have keep: "filter (\<lambda>x. \<not> (searchTimeout s = Some (fst x) \<and> fst x \<noteq> 0)) (timers b1)
      = timers b1"
    by (rule filter_True) (use others b1(1) in auto)
  have "armed (timers b) (now b) v (requests b) (b2, s2)"
  proof (rule armedI)
    show "searchTimeout s2 = Some (next_timer b)"
      using handleInputChange_effect(2)[of v b1 s] h b1 by simp
    show "0 < next_timer b" by (rule fresh(1))
    show "\<forall>x\<in>set (timers b). fst x < next_timer b" by (rule fresh(2))
    show "next_timer b < next_timer b2"
      using handleInputChange_effect(3)[of v b1 s] h b1 by simp
    show "now b \<le> now b2"
      using handleInputChange_effect(4)[of v b1 s] h b1 by simp
    show "timers b2 = filter (\<lambda>x. \<not> fst (snd x) \<le> now b2) (timers b)
        @ [(next_timer b, now b2 + 300, v)]"
      using handleInputChange_effect(1,4)[of v b1 s] h b1 keep by simp
    show "requests b2 = requests b
        @ fired_requests (filter (\<lambda>x. fst (snd x) \<le> now b2) (timers b))"
      using handleInputChange_effect(4,5)[of v b1 s] h b1 by simp
  qed
  with e s1 h show ?thesis by simp
qed

lemma rearm:
  assumes a: "armed old t0 v r (b, s)" and g: "g < 300"
    and srt: "sorted (map (\<lambda>x. fst (snd x)) old)"
    and due: "\<forall>x\<in>set old. fst (snd x) \<le> t0 + 300"
  shows "armed old t0 v' r (handleInputChange v' (elapse g (b, s)))"
proof -
  from a obtain i where i: "searchTimeout s = Some i" "0 < i" "\<forall>x\<in>set old. fst x < i"
    "i < next_timer b" "t0 \<le> now b"
    "timers b = filter (\<lambda>x. \<not> fst (snd x) \<le> now b) old @ [(i, now b + 300, v)]"
    "requests b = r @ fired_requests (filter (\<lambda>x. fst (snd x) \<le> now b) old)"
    by (rule armedE)
  have srtb: "sorted (map (\<lambda>x. fst (snd x)) (timers b))"
    using sorted_filter[OF srt, of "\<lambda>x. \<not> fst (snd x) \<le> now b"] due i(5)
    by (auto simp: i(6) sorted_append)
  have duef: "filter (\<lambda>x. fst (snd x) \<le> now b + g) (timers b)
      = filter (\<lambda>x. \<not> fst (snd x) \<le> now b \<and> fst (snd x) \<le> now b + g) old"
    using g by (simp add: i(6))
  have restf: "filter (\<lambda>x. \<not> fst (snd x) \<le> now b + g) (timers b)
      = filter (\<lambda>x. \<not> fst (snd x) \<le> now b + g) old @ [(i, now b + 300, v)]"
    using g by (auto simp: i(6) intro: filter_cong)
  obtain b1 s1 where e: "elapse g (b, s) = (b1, s1)" by (cases "elapse g (b, s)")
  have "\<forall>x\<in>set (timers b). fst (snd x) \<le> now b + g \<longrightarrow> searchTimeout s \<noteq> Some (fst x)"
    using i(1,3) g by (auto simp: i(6))
  then have s1: "s1 = s" using elapse_others[of b g s] e by simp
  have b1: "timers b1 = filter (\<lambda>x. \<not> fst (snd x) \<le> now b + g) old @ [(i, now b + 300, v)]"
    "now b1 = now b + g" "next_timer b1 = next_timer b"
    using elapse_keeps[of g b s] e restf by simp_all
  have rq1: "requests b1 = r @ fired_requests (filter (\<lambda>x. fst (snd x) \<le> now b + g) old)"
  proof -
    have "requests b1 = r @ fired_requests (filter (\<lambda>x. fst (snd x) \<le> now b) old
        @ filter (\<lambda>x. \<not> fst (snd x) \<le> now b \<and> fst (snd x) \<le> now b + g) old)"
      using elapse_requests_sorted[OF srtb, of g s] e duef
      by (simp add: i(7) fired_requests_append)
    then show ?thesis using filter_due_split[OF srt, of "now b" "now b + g"] by simp
  qed
  obtain b2 s2 where h: "handleInputChange v' (b1, s) = (b2, s2)"
    by (cases "handleInputChange v' (b1, s)")
  have "filter (\<lambda>x. \<not> (searchTimeout s = Some (fst x) \<and> fst x \<noteq> 0))
        (filter (\<lambda>x. \<not> fst (snd x) \<le> now b + g) old)
      = filter (\<lambda>x. \<not> fst (snd x) \<le> now b + g) old"
    by (rule filter_True) (use i(1,3) in auto)
  then have cancel: "filter (\<lambda>x. \<not> (searchTimeout s = Some (fst x) \<and> fst x \<noteq> 0)) (timers b1)
      = filter (\<lambda>x. \<not> fst (snd x) \<le> now b + g) old"
    using i(1,2) by (simp add: b1(1))
  have "armed old t0 v' r (b2, s2)"
  proof (rule armedI)
    show "searchTimeout s2 = Some (next_timer b)"
      using handleInputChange_effect(2)[of v' b1 s] h b1 by simp
    show "0 < next_timer b" using i(2,4) by simp
    show "\<forall>x\<in>set old. fst x < next_timer b" using i(3,4) by auto
    show "next_timer b < next_timer b2"
      using handleInputChange_effect(3)[of v' b1 s] h b1 by simp
    show "t0 \<le> now b2"
      using handleInputChange_effect(4)[of v' b1 s] h b1 i(5) by simp
    show "timers b2 = filter (\<lambda>x. \<not> fst (snd x) \<le> now b2) old
        @ [(next_timer b, now b2 + 300, v')]"
      using handleInputChange_effect(1,4)[of v' b1 s] h b1 cancel by simp
    show "requests b2 = r @ fired_requests (filter (\<lambda>x. fst (snd x) \<le> now b2) old)"
      using handleInputChange_effect(4,5)[of v' b1 s] h b1 rq1 by simp
  qed
  with e s1 h show ?thesis by simp
qed

lemma burst_armed:
  assumes "armed old t0 v r st" "\<forall>k\<in>set ks. fst k < 300"
    and srt: "sorted (map (\<lambda>x. fst (snd x)) old)"
    and due: "\<forall>x\<in>set old. fst (snd x) \<le> t0 + 300"
  shows "armed old t0 (if ks = [] then v else snd (last ks)) r (type_keys ks st)"
  using assms(1,2)
proof (induction ks arbitrary: v st)
  case Nil
  then show ?case by simp
next
  case (Cons k ks)
  obtain g v' where k: "k = (g, v')" by (cases k)
  obtain b s where st: "st = (b, s)" by (cases st)
  have "armed old t0 v' r (handleInputChange v' (elapse g st))"
    using rearm[OF _ _ srt due, of v r b s g v'] Cons.prems k st by simp
  from Cons.IH[OF this] Cons.prems(2) k show ?case by (auto split: if_splits)
qed

lemma fired_requests_snoc:
  "fired_requests (A @ [(i, at, v)]) = fired_requests A @ search_requests v"
  by (simp add: fired_requests_def)

lemma elapse_armed:
  assumes a: "armed old t0 v r (b, s)"
    and srt: "sorted (map (\<lambda>x. fst (snd x)) old)"
    and due: "\<forall>x\<in>set old. fst (snd x) \<le> t0 + 300"
  shows "requests (fst (elapse d (b, s)))
           = requests b
             @ fired_requests (filter (\<lambda>x. now b < fst (snd x) \<and> fst (snd x) \<le> now b + d) old)
             @ (if 300 \<le> d then search_requests v else [])"
    and "timers (fst (elapse d (b, s)))
           = (if d < 300 then filter (\<lambda>x. now b + d < fst (snd x)) (timers b) else [])"
proof -
  from a obtain i where i: "searchTimeout s = Some i" "0 < i" "\<forall>x\<in>set old. fst x < i"
    "i < next_timer b" "t0 \<le> now b"
    "timers b = filter (\<lambda>x. \<not> fst (snd x) \<le> now b) old @ [(i, now b + 300, v)]"
    "requests b = r @ fired_requests (filter (\<lambda>x. fst (snd x) \<le> now b) old)"
    by (rule armedE)
  have srtb: "sorted (map (\<lambda>x. fst (snd x)) (timers b))"
    using sorted_filter[OF srt, of "\<lambda>x. \<not> fst (snd x) \<le> now b"] due i(5)
    by (auto simp: i(6) sorted_append)
  have same: "filter (\<lambda>x. \<not> fst (snd x) \<le> now b \<and> fst (snd x) \<le> now b + d) old
      = filter (\<lambda>x. now b < fst (snd x) \<and> fst (snd x) \<le> now b + d) old"
    by (intro filter_cong) auto
  have duef: "filter (\<lambda>x. fst (snd x) \<le> now b + d) (timers b)
      = filter (\<lambda>x. now b < fst (snd x) \<and> fst (snd x) \<le> now b + d) old
        @ (if 300 \<le> d then [(i, now b + 300, v)] else [])"
    using same by (simp add: i(6))
  show "requests (fst (elapse d (b, s)))
           = requests b
             @ fired_requests (filter (\<lambda>x. now b < fst (snd x) \<and> fst (snd x) \<le> now b + d) old)
             @ (if 300 \<le> d then search_requests v else [])"
    unfolding elapse_requests_sorted[OF srtb] duef
    by (simp add: fired_requests_append) (simp add: fired_requests_def)
  have rest: "timers (fst (elapse d (b, s)))
      = filter (\<lambda>x. now b + d < fst (snd x)) (timers b)"
    unfolding elapse_keeps(1) by (intro filter_cong) auto
  have "filter (\<lambda>x. now b + d < fst (snd x)) (timers b) = []" if "300 \<le> d"
    using that due i(5) by (fastforce simp: i(6) filter_empty_conv)
  with rest show "timers (fst (elapse d (b, s)))
           = (if d < 300 then filter (\<lambda>x. now b + d < fst (snd x)) (timers b) else [])"
    by (simp add: not_less)
qed

text \<open>
  C8 (as the code has it). A keystroke cancels the timeout the mounted component
  remembers, the one of its previous keystroke, and no other; a timeout left pending by
  an earlier mount stays and fires with its own text. Start in a state the browser can
  be in when the component remembers no pending timeout (just mounted, mounted again, or
  with its last timeout fired): ids in use are below the next id, the pending timeouts
  are in order of their due times, none due later than 300 ms from now. Type a burst: a
  first keystroke after any pause, then keystrokes each less than 300 ms after the one
  before; \<open>T\<close> is the time of the last keystroke and \<open>v\<close> the text it left. Then the
  timeout of that keystroke is the last one pending, due at \<open>T + 300\<close> and carrying
  \<open>v\<close>, and before it are the earlier mounts' timeouts not yet due; up to \<open>T\<close> only
  the earlier mounts' timeouts that fell due have sent requests, none for a text of the
  burst. When \<open>d\<close> more milliseconds pass without input, the earlier mounts' timeouts due
  in that time send theirs, and from \<open>d = 300\<close> on the component's timeout has fired
  and \<^verbatim>\<open>searchGames\<close> has run once with \<open>v\<close>: exactly one request if \<open>v\<close> has at
  least two units and \<^verbatim>\<open>encodeURIComponent\<close> accepts it, none otherwise. With no
  earlier timeout pending, that request is the only one.
\<close>

theorem debounce_latest_text:
  assumes fresh: "0 < next_timer b" "\<forall>x\<in>set (timers b). fst x < next_timer b"
    and others: "\<forall>x\<in>set (timers b). searchTimeout s \<noteq> Some (fst x)"
    and reach: "sorted (map (\<lambda>x. fst (snd x)) (timers b))"
      "\<forall>x\<in>set (timers b). fst (snd x) \<le> now b + 300"
    and burst: "\<forall>k\<in>set ks. fst k < 300"
    and st1: "st1 = type_keys ((g, v0) # ks) (b, s)"
    and T: "T = now (fst st1)"
    and v: "v = snd (last ((g, v0) # ks))"
  shows "(\<exists>i. searchTimeout (snd st1) = Some i
            \<and> timers (fst st1)
                = filter (\<lambda>x. T < fst (snd x)) (timers b) @ [(i, T + 300, v)])
       \<and> requests (fst st1)
           = requests b @ fired_requests (filter (\<lambda>x. fst (snd x) \<le> T) (timers b))
       \<and> requests (fst (elapse d st1))
           = requests (fst st1)
             @ fired_requests (filter (\<lambda>x. T < fst (snd x) \<and> fst (snd x) \<le> T + d) (timers b))
             @ (if 300 \<le> d then search_requests v else [])
       \<and> timers (fst (elapse d st1))
           = (if d < 300 then filter (\<lambda>x. T + d < fst (snd x)) (timers (fst st1)) else [])"
proof -
  obtain b1 s1 where bs: "st1 = (b1, s1)" by (cases st1)
  have "armed (timers b) (now b) v0 (requests b) (handleInputChange v0 (elapse g (b, s)))"
    using fresh others reach(1) by (rule first_key_arms)
  from burst_armed[OF this burst reach] have a: "armed (timers b) (now b) v (requests b) (b1, s1)"
    using st1 v bs by (simp split: if_splits)
  from a obtain i where i: "searchTimeout s1 = Some i"
    "timers b1 = filter (\<lambda>x. \<not> fst (snd x) \<le> now b1) (timers b) @ [(i, now b1 + 300, v)]"
    "requests b1 = requests b @ fired_requests (filter (\<lambda>x. fst (snd x) \<le> now b1) (timers b))"
    by (rule armedE)
  have "filter (\<lambda>x. \<not> fst (snd x) \<le> now b1) (timers b)
      = filter (\<lambda>x. now b1 < fst (snd x)) (timers b)"
    by (intro filter_cong) auto
  with i have 1: "\<exists>i. searchTimeout (snd st1) = Some i
            \<and> timers (fst st1)
                = filter (\<lambda>x. T < fst (snd x)) (timers b) @ [(i, T + 300, v)]"
    using bs T by simp
  have 2: "requests (fst st1)
           = requests b @ fired_requests (filter (\<lambda>x. fst (snd x) \<le> T) (timers b))"
    using i(3) bs T by simp
  have 3: "requests (fst (elapse d st1))
           = requests (fst st1)
             @ fired_requests (filter (\<lambda>x. T < fst (snd x) \<and> fst (snd x) \<le> T + d) (timers b))
             @ (if 300 \<le> d then search_requests v else [])"
    using elapse_armed(1)[OF a reach, of d] bs T by simp
  have 4: "timers (fst (elapse d st1))
           = (if d < 300 then filter (\<lambda>x. T + d < fst (snd x)) (timers (fst st1)) else [])"
    using elapse_armed(2)[OF a reach, of d] bs T by simp
  from 1 2 3 4 show ?thesis by blast
qed

lemma now_after:
  "now (fst (handleInputChange v st)) = now (fst st)"
  "now (fst (elapse d st)) = now (fst st) + d"
  by (cases st, simp add: handleInputChange_effect elapse_keeps)+

text \<open>
  Typing "ca", leaving the search tab 100 ms later and coming back: the timeout for "ca"
  is still pending and the new component does not know it.
\<close>

lemma remount_leaves_timeout:
  "remount (elapse 100 (type_keys [(0, js ''ca'')] (fresh_browser, search_init)))
     = (fresh_browser\<lparr>now := 100, next_timer := 2, timers := [(1, 300, js ''ca'')]\<rparr>, search_init)"
  by (simp add: remount_def elapse_def handleInputChange_def setTimeout_def fresh_browser_def
      search_init_def Let_def js_def)

theorem debounce_latest_text_witness:
  "0 < next_timer (fresh_browser\<lparr>now := 100, next_timer := 2, timers := [(1, 300, js ''ca'')]\<rparr>)
   \<and> list_all (\<lambda>k. fst k < (300::nat)) [(100, js ''cat'')]
   \<and> requests (fst (elapse 300 (type_keys [(50, js ''c''), (100, js ''cat'')]
        (fresh_browser\<lparr>now := 100, next_timer := 2, timers := [(1, 300, js ''ca'')]\<rparr>,
         search_init))))
       = requests (fst (type_keys [(50, js ''c''), (100, js ''cat'')]
        (fresh_browser\<lparr>now := 100, next_timer := 2, timers := [(1, 300, js ''ca'')]\<rparr>,
         search_init)))
         @ [GetSearch (js ''ca''), GetSearch (js ''cat'')]
   \<and> timers (fst (elapse 300 (type_keys [(50, js ''c''), (100, js ''cat'')]
        (fresh_browser\<lparr>now := 100, next_timer := 2, timers := [(1, 300, js ''ca'')]\<rparr>,
         search_init)))) = []"
proof -
  let ?b = "fresh_browser\<lparr>now := 100, next_timer := 2, timers := [(1, 300, js ''ca'')]\<rparr>"
  let ?st1 = "type_keys [(50, js ''c''), (100, js ''cat'')] (?b, search_init)"
  have f1: "0 < next_timer ?b" by simp
  have f2: "\<forall>x\<in>set (timers ?b). fst x < next_timer ?b" by simp
  have o: "\<forall>x\<in>set (timers ?b). searchTimeout search_init \<noteq> Some (fst x)"
    by (simp add: search_init_def)
  have r1: "sorted (map (\<lambda>x. fst (snd x)) (timers ?b))" by simp
  have r2: "\<forall>x\<in>set (timers ?b). fst (snd x) \<le> now ?b + 300" by simp
  have bu: "\<forall>k\<in>set [(100, js ''cat'')]. fst k < (300::nat)" by simp
  have T: "now (fst ?st1) = 250"
    by (simp add: now_after)
  note t = debounce_latest_text [OF f1 f2 o r1 r2 bu refl refl refl, of 50 "js ''c''" 300]
  have sr: "search_requests (js ''ca'') = [GetSearch (js ''ca'')]"
    "search_requests (js ''cat'') = [GetSearch (js ''cat'')]"
    by (simp_all add: search_requests_def js_def high_surrogate_def low_surrogate_def)
  from t have "requests (fst (elapse 300 ?st1))
      = requests (fst ?st1) @ [GetSearch (js ''ca''), GetSearch (js ''cat'')]"
    unfolding T by (simp add: fired_requests_def sr)
  moreover from t have "timers (fst (elapse 300 ?st1)) = []"
    by simp
  ultimately show ?thesis using f1 bu by (simp add: list_all_iff)
qed

text \<open>
  C8 (as stated) fails where the text is one unit long: the keystroke schedules the
  timeout, 300 ms later the timeout has fired and is gone, and no request was sent.
\<close>

theorem short_text_fires_without_request:
  "map snd (timers (fst (type_keys [(0, js ''c'')] (fresh_browser, search_init))))
     = [(300, js ''c'')]
   \<and> timers (fst (elapse 300 (type_keys [(0, js ''c'')] (fresh_browser, search_init)))) = []
   \<and> requests (fst (elapse 300 (type_keys [(0, js ''c'')] (fresh_browser, search_init)))) = []"
  by (simp add: js_def fresh_browser_def search_init_def handleInputChange_def elapse_def
      setTimeout_def clearTimeout_def searchGames_call_def fire_def Let_def)

text \<open>The same for a text of two units that holds a lone surrogate; the error is logged.\<close>

lemma unencodable_text_fires_without_request:
  "requests (fst (elapse 300 (type_keys [(0, [0xD83C, 0x61])] (fresh_browser, search_init)))) = []
   \<and> console (fst (elapse 300 (type_keys [(0, [0xD83C, 0x61])] (fresh_browser, search_init))))
       = [(''Search error:'', URIError)]"
  by (simp add: fresh_browser_def search_init_def handleInputChange_def elapse_def
      setTimeout_def clearTimeout_def searchGames_call_def fire_def Let_def console_error_def
      high_surrogate_def low_surrogate_def)

subsection \<open>Session\<close>

text \<open>When the token exchange itself is rejected, \<^verbatim>\<open>login\<close> leaves the session as it was.\<close>

lemma login_rejected_session_unchanged:
  "snd (snd (login u p (Inl e) profileAnswer (b, a))) = a
   \<and> localStorage_token (fst (snd (login u p (Inl e) profileAnswer (b, a)))) = localStorage_token b
   \<and> authorization (fst (snd (login u p (Inl e) profileAnswer (b, a)))) = authorization b
   \<and> fst (login u p (Inl e) profileAnswer (b, a)) = login_failure e"
  by (simp add: login_def send_def console_error_def)

text \<open>
  C3. The claim does not hold of \<^verbatim>\<open>login\<close> when the token exchange succeeds and the
  profile request that follows fails: from a signed-out session with an empty browser,
  \<^verbatim>\<open>login\<close> returns the failure value, and the token is left in \<^verbatim>\<open>localStorage\<close>, in
  the \<^verbatim>\<open>Authorization\<close> header and in the \<^verbatim>\<open>token\<close> state, with no user.
\<close>

theorem login_profile_failure_keeps_token:
  "login (js ''alice'') (js ''secret'') (Inr (js ''tok'')) (Inl (HttpStatus 500 None))
       (fresh_browser, auth_init\<lparr>loading := False\<rparr>)
     = (Failure (js ''Login failed. Please check your credentials.''),
        fresh_browser\<lparr>localStorage_token := Some (js ''tok''),
          authorization := Some (bearer (js ''tok'')),
          requests := [PostLogin (js ''alice'') (js ''secret''), GetProfile],
          console := [(''Login error:'', HttpStatus 500 None)]\<rparr>,
        \<lparr>user = None, token = Some (js ''tok''), loading = False\<rparr>)"
  by (simp add: login_def login_failure_def or_default_def send_def console_error_def
      fresh_browser_def auth_init_def)

text \<open>
  C4. A profile refresh can only fail when it is attempted, that is when the \<^verbatim>\<open>token\<close>
  state is truthy. After a failed refresh in a session that has finished initialising,
  the status is Anonymous, user and token are cleared, the \<^verbatim>\<open>localStorage\<close> slot is
  empty and the header is detached; the list effect run next sends nothing and the
  component shows no item, whatever its state held before.
\<close>

theorem refreshProfile_failure_logs_out:
  assumes "truthy (token a)" and "\<not> loading a"
  shows "status (snd (refreshProfile (Inl e) (b, a))) = Anonymous
       \<and> user (snd (refreshProfile (Inl e) (b, a))) = None
       \<and> token (snd (refreshProfile (Inl e) (b, a))) = None
       \<and> localStorage_token (fst (refreshProfile (Inl e) (b, a))) = None
       \<and> authorization (fst (refreshProfile (Inl e) (b, a))) = None
       \<and> requests (fst (Collection_effect isW (user (snd (refreshProfile (Inl e) (b, a)))) listAnswer
                          (fst (refreshProfile (Inl e) (b, a)), c)))
           = requests (fst (refreshProfile (Inl e) (b, a)))
       \<and> shown_items (Collection_render arrange (user (snd (refreshProfile (Inl e) (b, a))))
            (snd (Collection_effect isW (user (snd (refreshProfile (Inl e) (b, a)))) listAnswer
                          (fst (refreshProfile (Inl e) (b, a)), c)))) = []"
  using assms
  by (simp add: refreshProfile_def logout_def status_def Collection_effect_def
      Collection_render_def send_def console_error_def)

theorem refreshProfile_failure_logs_out_witness:
  "truthy (token alice_session) \<and> \<not> loading alice_session
   \<and> requests (fst (refreshProfile (Inl (HttpStatus 401 None)) (alice_browser, alice_session)))
       = [GetProfile]
   \<and> status (snd (refreshProfile (Inl (HttpStatus 401 None)) (alice_browser, alice_session)))
       = Anonymous
   \<and> localStorage_token (fst (refreshProfile (Inl (HttpStatus 401 None))
       (alice_browser, alice_session))) = None
   \<and> authorization (fst (refreshProfile (Inl (HttpStatus 401 None))
       (alice_browser, alice_session))) = None
   \<and> requests (fst (Collection_effect False
         (user (snd (refreshProfile (Inl (HttpStatus 401 None)) (alice_browser, alice_session))))
         (Inr [catan_item])
         (fst (refreshProfile (Inl (HttpStatus 401 None)) (alice_browser, alice_session)),
          \<lparr>collection = [catan_item], fetching = False\<rparr>)))
       = requests (fst (refreshProfile (Inl (HttpStatus 401 None)) (alice_browser, alice_session)))
   \<and> shown_items (Collection_render id
         (user (snd (refreshProfile (Inl (HttpStatus 401 None)) (alice_browser, alice_session))))
         (snd (Collection_effect False
           (user (snd (refreshProfile (Inl (HttpStatus 401 None)) (alice_browser, alice_session))))
           (Inr [catan_item])
           (fst (refreshProfile (Inl (HttpStatus 401 None)) (alice_browser, alice_session)),
            \<lparr>collection = [catan_item], fetching = False\<rparr>)))) = []"
proof -
  have h1: "truthy (token alice_session)" by (simp add: alice_session_def js_def)
  have h2: "\<not> loading alice_session" by (simp add: alice_session_def)
  have r: "requests (fst (refreshProfile (Inl (HttpStatus 401 None)) (alice_browser, alice_session)))
      = [GetProfile]"
    using h1 by (simp add: refreshProfile_def logout_def send_def console_error_def
        alice_browser_def fresh_browser_def)
  show ?thesis
    using h1 h2 r
      refreshProfile_failure_logs_out [OF h1 h2, where e = "HttpStatus 401 None"
        and b = alice_browser and isW = False and listAnswer = "Inr [catan_item]"
        and c = "\<lparr>collection = [catan_item], fetching = False\<rparr>" and arrange = id]
    by blast
qed

text \<open>
  C9. Whatever the answers to the login and profile requests were, and whatever the
  session was before: after \<^verbatim>\<open>login\<close>, \<^verbatim>\<open>logout\<close>, a reload and
  \<^verbatim>\<open>initializeAuth\<close>, the status is Anonymous, there is no user and no token state,
  the \<^verbatim>\<open>localStorage\<close> slot is empty, no header is attached, and the initialisation
  sent no request.
\<close>

theorem login_logout_initialize_anonymous:
  "status (snd (initializeAuth ans3 (reload (logout (snd (login u p ans1 ans2 (b, a))))))) = Anonymous
   \<and> user (snd (initializeAuth ans3 (reload (logout (snd (login u p ans1 ans2 (b, a))))))) = None
   \<and> token (snd (initializeAuth ans3 (reload (logout (snd (login u p ans1 ans2 (b, a))))))) = None
   \<and> localStorage_token (fst (initializeAuth ans3 (reload (logout (snd (login u p ans1 ans2 (b, a))))))) = None
   \<and> authorization (fst (initializeAuth ans3 (reload (logout (snd (login u p ans1 ans2 (b, a))))))) = None
   \<and> requests (fst (initializeAuth ans3 (reload (logout (snd (login u p ans1 ans2 (b, a)))))))
       = requests (fst (snd (login u p ans1 ans2 (b, a))))"
  by (cases ans1; cases ans2)
     (simp_all add: login_def logout_def reload_def initializeAuth_def status_def auth_init_def
        send_def console_error_def)

theorem login_logout_initialize_anonymous_witness:
  "status (snd (initializeAuth (Inr alice) (reload (logout (snd
       (login (js ''alice'') (js ''secret'') (Inr (js ''tok'')) (Inr alice)
          (fresh_browser, auth_init\<lparr>loading := False\<rparr>))))))) = Anonymous
   \<and> localStorage_token (fst (initializeAuth (Inr alice) (reload (logout (snd
       (login (js ''alice'') (js ''secret'') (Inr (js ''tok'')) (Inr alice)
          (fresh_browser, auth_init\<lparr>loading := False\<rparr>))))))) = None
   \<and> authorization (fst (initializeAuth (Inr alice) (reload (logout (snd
       (login (js ''alice'') (js ''secret'') (Inr (js ''tok'')) (Inr alice)
          (fresh_browser, auth_init\<lparr>loading := False\<rparr>))))))) = None
   \<and> user (snd (snd (login (js ''alice'') (js ''secret'') (Inr (js ''tok'')) (Inr alice)
          (fresh_browser, auth_init\<lparr>loading := False\<rparr>)))) = Some alice"
proof -
  have signed_in: "user (snd (snd (login (js ''alice'') (js ''secret'') (Inr (js ''tok''))
      (Inr alice) (fresh_browser, auth_init\<lparr>loading := False\<rparr>)))) = Some alice"
    by (simp add: login_def)
  show ?thesis
    using signed_in
      login_logout_initialize_anonymous [of "Inr alice" "js ''alice''" "js ''secret''"
        "Inr (js ''tok'')" "Inr alice" fresh_browser "auth_init\<lparr>loading := False\<rparr>"]
    by blast
qed

subsection \<open>Collection\<close>

text \<open>
  C6. With no user in the session the list effect leaves the browser as it is (no
  request, no console output, no alert), the component renders the sign-in prompt and
  shows no item, and a newly mounted component holds the empty list.
\<close>

theorem list_signed_out_no_request:
  assumes "user a = None"
  shows "fst (Collection_effect isW (user a) answer (b, c)) = b
       \<and> Collection_render arrange (user a) (snd (Collection_effect isW (user a) answer (b, c)))
           = LoginPrompt
       \<and> shown_items (Collection_render arrange (user a)
            (snd (Collection_effect isW (user a) answer (b, c)))) = []
       \<and> collection (snd (Collection_effect isW (user a) answer (b, collection_init))) = []"
  using assms
  by (simp add: Collection_effect_def Collection_render_def collection_init_def)

theorem list_signed_out_no_request_witness:
  "user (auth_init\<lparr>loading := False\<rparr>) = None
   \<and> fst (Collection_effect True (user (auth_init\<lparr>loading := False\<rparr>)) (Inr [catan_item])
           (fresh_browser, collection_init)) = fresh_browser
   \<and> Collection_render id (user (auth_init\<lparr>loading := False\<rparr>))
       (snd (Collection_effect True (user (auth_init\<lparr>loading := False\<rparr>)) (Inr [catan_item])
           (fresh_browser, collection_init))) = LoginPrompt
   \<and> collection (snd (Collection_effect True (user (auth_init\<lparr>loading := False\<rparr>))
           (Inr [catan_item]) (fresh_browser, collection_init))) = []"
proof -
  have h: "user (auth_init\<lparr>loading := False\<rparr>) = None" by (simp add: auth_init_def)
  show ?thesis
    using h list_signed_out_no_request [OF h, of True "Inr [catan_item]" fresh_browser
        collection_init id]
    by simp
qed

text \<open>
  C7. The claim does not hold of the code: \<^verbatim>\<open>fetchCounts\<close>, the callback run after a
  removal and after an add, does nothing. With alice signed in and one game counted in her
  profile, a successful removal sends the delete and the re-list and no profile request;
  a successful add sends the add alone and closes the modal. The session, and with it
  the counts on display, is the same before and after.
\<close>

theorem remove_and_add_skip_count_refresh:
  "removeFromCollection fetchCounts False 7 (Inr ()) (Inr [])
       (alice_browser, \<lparr>collection = [catan_item], fetching = False\<rparr>,
        alice_session, collection_page)
     = (alice_browser\<lparr>requests := [DeleteCollection 7, GetCollection False]\<rparr>,
        \<lparr>collection = [], fetching = False\<rparr>, alice_session, collection_page)
   \<and> handleAddToCollection App_handleAddToCollection App_onClose (Some alice) catan (Inr ())
       (alice_browser, empty_form, alice_session, search_page)
     = (alice_browser\<lparr>requests := [PostCollection 13 [] [] False]\<rparr>,
        empty_form, alice_session, search_page\<lparr>selectedGame := None\<rparr>)
   \<and> user alice_session = Some alice \<and> collection_count alice = 1"
  by (simp add: removeFromCollection_def fetchCollection_def fetchCounts_def send_def
      handleAddToCollection_def handleAddToCollection_call_def handleAddToCollection_settle_def
      App_handleAddToCollection_def App_onClose_def alice_browser_def fresh_browser_def
      alice_session_def alice_def empty_form_def catan_def comma_def trim_def)

subsection \<open>Adding a game\<close>

text \<open>
  C5 (as the code has it). When the add request fails, for whatever reason, the caller
  and the user get one and the same outcome: the alert "This game is already in your
  collection!", the one request sent, the \<^verbatim>\<open>adding\<close> flag down, and neither callback
  run. The right-hand sides do not mention the error. The revision in part_001 does the
  same.
\<close>

theorem add_failure_one_outcome:
  assumes "usr \<noteq> None"
  shows "caller_view (handleAddToCollection onAdd onCl usr gm (Inl e) (b, m, w))
           = (alerts b @ [''This game is already in your collection!''],
              requests b @ [PostCollection (bgg_id gm) (userNotes m)
                 (filter (\<lambda>t. t \<noteq> []) (map trim (js_split comma (customTags m))))
                 (isWishlist m)],
              m\<lparr>adding := False\<rparr>, w)
       \<and> caller_view (handleAddToCollection_part_001 onAdd onCl gm (Inl e) (b, m, w))
           = (alerts b @ [''This game is already in your collection!''],
              requests b @ [PostCollection (bgg_id gm) (userNotes m)
                 (filter (\<lambda>t. t \<noteq> []) (map trim (js_split comma (customTags m))))
                 (isWishlist m)],
              m\<lparr>adding := False\<rparr>, w)"
  using assms
  by (cases usr)
     (simp_all add: caller_view_def handleAddToCollection_def handleAddToCollection_call_def
        handleAddToCollection_settle_def handleAddToCollection_part_001_def
        handleAddToCollection_call_part_001_def send_def alert_def console_error_def)

theorem add_failure_one_outcome_witness:
  "Some alice \<noteq> None
   \<and> caller_view (handleAddToCollection App_handleAddToCollection App_onClose (Some alice) catan
        (Inl (HttpStatus 409 (Some (js ''Game already in collection''))))
        (alice_browser, empty_form, alice_session, search_page))
       = ([''This game is already in your collection!''],
          [PostCollection 13 [] [] False], empty_form, alice_session, search_page)"
proof -
  have h: "Some alice \<noteq> None" by simp
  show ?thesis
    using add_failure_one_outcome [OF h, of App_handleAddToCollection App_onClose catan
        "HttpStatus 409 (Some (js ''Game already in collection''))" alice_browser empty_form
        "(alice_session, search_page)"]
    by (simp add: alice_browser_def fresh_browser_def empty_form_def catan_def comma_def trim_def)
qed

text \<open>
  C5 (as stated) fails: a 409 answer for a duplicate and a network failure leave the
  caller with the same view.
\<close>

theorem duplicate_add_not_distinguished:
  "caller_view (handleAddToCollection App_handleAddToCollection App_onClose (Some alice) catan
        (Inl (HttpStatus 409 (Some (js ''Game already in collection''))))
        (alice_browser, empty_form, alice_session, search_page))
   = caller_view (handleAddToCollection App_handleAddToCollection App_onClose (Some alice) catan
        (Inl NetworkError)
        (alice_browser, empty_form, alice_session, search_page))"
  by (simp add: caller_view_def handleAddToCollection_def handleAddToCollection_call_def
      handleAddToCollection_settle_def send_def alert_def console_error_def)

subsection \<open>Tags\<close>

lemma js_split_not_Nil: "js_split sep s \<noteq> []"
  by (induction s) (auto split: list.splits)

lemma join_js_split: "join sep (js_split sep s) = s"
proof (induction s)
  case Nil then show ?case by simp
next
  case (Cons c cs)
  obtain seg segs where sp: "js_split sep cs = seg # segs"
    using js_split_not_Nil[of sep cs] by (cases "js_split sep cs") auto
  show ?case
  proof (cases "c = sep")
    case True
    with Cons sp show ?thesis by simp
  next
    case False
    with Cons sp show ?thesis by (cases segs) auto
  qed
qed

lemma js_split_no_sep: "seg \<in> set (js_split sep s) \<Longrightarrow> sep \<notin> set seg"
  by (induction s arbitrary: seg) (auto split: if_splits list.splits)

lemma last_dropWhile_eq: "dropWhile P xs \<noteq> [] \<Longrightarrow> last (dropWhile P xs) = last xs"
  by (induction xs) (auto split: if_splits)

lemma trim_ends:
  assumes "trim s \<noteq> []"
  shows "\<not> is_whitespace (hd (trim s))" and "\<not> is_whitespace (last (trim s))"
proof -
  let ?u = "dropWhile is_whitespace s"
  let ?v = "dropWhile is_whitespace (rev ?u)"
  have v: "?v \<noteq> []" using assms by (simp add: trim_def)
  have u: "?u \<noteq> []"
  proof
    assume "?u = []"
    then have "?v = []" by (auto dest: set_dropWhileD)
    with v show False by simp
  qed
  have "last (trim s) = hd ?v" using v by (simp add: trim_def last_rev)
  then show "\<not> is_whitespace (last (trim s))" using hd_dropWhile[OF v] by simp
  have "hd (trim s) = last ?v" using v by (simp add: trim_def hd_rev)
  also have "\<dots> = last (rev ?u)" using v by (rule last_dropWhile_eq)
  also have "\<dots> = hd ?u" using u by (simp add: last_rev)
  finally show "\<not> is_whitespace (hd (trim s))" using hd_dropWhile[OF u] by simp
qed

lemma trim_decompose:
  "s = takeWhile is_whitespace s @ trim s
         @ rev (takeWhile is_whitespace (rev (dropWhile is_whitespace s)))"
proof -
  let ?u = "dropWhile is_whitespace s"
  have "rev ?u = takeWhile is_whitespace (rev ?u) @ dropWhile is_whitespace (rev ?u)"
    by simp
  then have "?u = rev (dropWhile is_whitespace (rev ?u)) @ rev (takeWhile is_whitespace (rev ?u))"
    by (metis rev_append rev_rev_ident)
  then have "?u = trim s @ rev (takeWhile is_whitespace (rev ?u))"
    by (simp add: trim_def)
  moreover have "s = takeWhile is_whitespace s @ ?u" by simp
  ultimately show ?thesis by metis
qed

text \<open>
  C10. For a signed-in user the request that \<^verbatim>\<open>handleAddToCollection\<close> sends carries
  as custom_tags the segments of the raw text, each trimmed, without the empty ones, in
  order; part_001 sends the same. The segments are the comma-separated pieces of the
  text: joined with commas they give the text back and none contains a comma. Each
  segment is its trimmed form between two runs of white space. No tag sent is empty,
  starts with white space or ends with it.
\<close>

theorem add_submits_trimmed_tags:
  assumes "usr \<noteq> None"
  shows "requests (fst (snd (handleAddToCollection_call usr gm (b, m))))
           = requests b @ [PostCollection (bgg_id gm) (userNotes m)
                (filter (\<lambda>t. t \<noteq> []) (map trim (js_split comma (customTags m)))) (isWishlist m)]
       \<and> requests (fst (handleAddToCollection_call_part_001 gm (b, m)))
           = requests b @ [PostCollection (bgg_id gm) (userNotes m)
                (filter (\<lambda>t. t \<noteq> []) (map trim (js_split comma (customTags m)))) (isWishlist m)]
       \<and> join comma (js_split comma (customTags m)) = customTags m
       \<and> (\<forall>seg\<in>set (js_split comma (customTags m)).
             comma \<notin> set seg
             \<and> seg = takeWhile is_whitespace seg @ trim seg
                      @ rev (takeWhile is_whitespace (rev (dropWhile is_whitespace seg))))
       \<and> (\<forall>t\<in>set (filter (\<lambda>t. t \<noteq> []) (map trim (js_split comma (customTags m)))).
             t \<noteq> [] \<and> \<not> is_whitespace (hd t) \<and> \<not> is_whitespace (last t))"
proof -
  have 1: "requests (fst (snd (handleAddToCollection_call usr gm (b, m))))
           = requests b @ [PostCollection (bgg_id gm) (userNotes m)
                (filter (\<lambda>t. t \<noteq> []) (map trim (js_split comma (customTags m)))) (isWishlist m)]"
    using assms by (cases usr) (simp_all add: handleAddToCollection_call_def send_def)
  have 2: "requests (fst (handleAddToCollection_call_part_001 gm (b, m)))
           = requests b @ [PostCollection (bgg_id gm) (userNotes m)
                (filter (\<lambda>t. t \<noteq> []) (map trim (js_split comma (customTags m)))) (isWishlist m)]"
    by (simp add: handleAddToCollection_call_part_001_def send_def)
  have 3: "join comma (js_split comma (customTags m)) = customTags m"
    by (rule join_js_split)
  have 4: "\<forall>seg\<in>set (js_split comma (customTags m)).
             comma \<notin> set seg
             \<and> seg = takeWhile is_whitespace seg @ trim seg
                      @ rev (takeWhile is_whitespace (rev (dropWhile is_whitespace seg)))"
  proof (intro ballI conjI)
    fix seg
    assume a: "seg \<in> set (js_split comma (customTags m))"
    show "comma \<notin> set seg" by (rule js_split_no_sep[OF a])
    show "seg = takeWhile is_whitespace seg @ trim seg
                      @ rev (takeWhile is_whitespace (rev (dropWhile is_whitespace seg)))"
      by (rule trim_decompose)
  qed
  have 5: "\<forall>t\<in>set (filter (\<lambda>t. t \<noteq> []) (map trim (js_split comma (customTags m)))).
             t \<noteq> [] \<and> \<not> is_whitespace (hd t) \<and> \<not> is_whitespace (last t)"
    using trim_ends by auto
  from 1 2 3 4 5 show ?thesis by blast
qed

theorem add_submits_trimmed_tags_witness:
  "Some alice \<noteq> None
   \<and> requests (fst (snd (handleAddToCollection_call (Some alice) catan
        (alice_browser, tagged_form))))
       = [PostCollection 13 (js ''fun'') [js ''strategy'', js ''co-op''] False]
   \<and> list_all (\<lambda>t. t \<noteq> [] \<and> \<not> is_whitespace (hd t) \<and> \<not> is_whitespace (last t))
         [js ''strategy'', js ''co-op'']"
proof -
  have h: "Some alice \<noteq> None" by simp
  have tags: "filter (\<lambda>t. t \<noteq> []) (map trim (js_split comma (customTags tagged_form)))
      = [js ''strategy'', js ''co-op'']"
    by (simp add: tagged_form_def js_def comma_def trim_def is_whitespace_def)
  have rest: "bgg_id catan = 13" "userNotes tagged_form = js ''fun''"
    "isWishlist tagged_form = False" "requests alice_browser = []"
    by (simp_all add: catan_def tagged_form_def alice_browser_def fresh_browser_def)
  show ?thesis
    using add_submits_trimmed_tags [OF h, of catan alice_browser tagged_form]
    unfolding tags rest by (simp add: list_all_iff)
qed

end
